theory Spec2Isabelle
  imports Main
begin

section \<open>Data model (models.py, rules.json documents)\<close>

text \<open>
  Exceptions are values. \<open>ParserError\<close> is what \<open>dateutil.parser.parse\<close> raises on a
  text it cannot read, \<open>TypeError\<close> what Python raises when an offset-aware and an
  offset-naive \<open>datetime\<close> are ordered, \<open>KeyError\<close> a missing dictionary key, and
  \<open>HttpError\<close> any failure of a request to the Gmail service.
\<close>

datatype error = ParserError | TypeError | KeyError | HttpError

text \<open>
  A Python \<open>datetime\<close>: the wall-clock reading in microseconds, and for an aware value
  its fixed UTC offset in microseconds.
\<close>

datatype pydatetime = Naive int | Aware int int

text \<open>
  The \<open>Email\<close> row of models.py. \<open>sender\<close> and \<open>received\<close> are NOT NULL columns;
  \<open>to\<close>, \<open>subject\<close> and \<open>body\<close> are nullable, so they may hold \<open>None\<close>. The
  \<open>DateTime\<close> column stores a naive wall-clock value.
\<close>

record email =
  email_id :: string
  sender :: string
  to_addr :: "string option"
  subject :: "string option"
  body :: "string option"
  received :: int
  is_read :: bool

text \<open>One leaf condition of a rule: the three keys \<open>_evaluate_condition\<close> reads.\<close>

record condition =
  field :: string
  predicate :: string
  val :: string

text \<open>The \<open>conditions\<close> node of a rule: a combinator tag and the list of leaves.\<close>

record rule_conditions =
  combinator :: string
  rules :: "condition list"

text \<open>
  An action: its \<open>type\<close> tag and, for \<open>move_message\<close>, the label name
  \<open>action['params']['label']\<close> (\<open>None\<close> when that lookup raises \<open>KeyError\<close>).
\<close>

record action =
  atype :: string
  params_label :: "string option"

record rule =
  rname :: string
  conditions :: rule_conditions
  actions :: "action list"

section \<open>Python values met by the condition evaluator\<close>

datatype pyval = VNone | VStr string | VDate pydatetime

text \<open>
  What the code takes from outside the repository: \<open>dateutil.parser.parse\<close> (failing
  with an exception on some texts), \<open>str\<close> of a \<open>datetime\<close>, and \<open>str.lower\<close>, which
  lowers every cased character of a text, whatever its script.
\<close>

record pylib =
  parse :: "string \<Rightarrow> error + pydatetime"
  str_dt :: "pydatetime \<Rightarrow> string"
  lower :: "string \<Rightarrow> string"

text \<open>\<open>datetime.replace(tzinfo=timezone.utc)\<close>: the same wall clock, read as UTC.\<close>

fun replace_tzinfo_utc :: "pydatetime \<Rightarrow> pydatetime" where
  "replace_tzinfo_utc (Naive w) = Aware w 0"
| "replace_tzinfo_utc (Aware w off) = Aware w 0"

text \<open>
  \<open>datetime\<close> comparison: two aware values are compared as instants (wall clock minus
  offset), two naive ones by wall clock; a mixed pair is never equal and cannot be
  ordered.
\<close>

fun dt_eq :: "pydatetime \<Rightarrow> pydatetime \<Rightarrow> bool" where
  "dt_eq (Naive a) (Naive b) = (a = b)"
| "dt_eq (Aware a oa) (Aware b ob) = (a - oa = b - ob)"
| "dt_eq _ _ = False"

fun dt_lt :: "pydatetime \<Rightarrow> pydatetime \<Rightarrow> error + bool" where
  "dt_lt (Naive a) (Naive b) = Inr (a < b)"
| "dt_lt (Aware a oa) (Aware b ob) = Inr (a - oa < b - ob)"
| "dt_lt _ _ = Inl TypeError"

fun py_eq :: "pyval \<Rightarrow> pyval \<Rightarrow> bool" where
  "py_eq VNone VNone = True"
| "py_eq (VStr a) (VStr b) = (a = b)"
| "py_eq (VDate a) (VDate b) = dt_eq a b"
| "py_eq _ _ = False"

fun py_lt :: "pyval \<Rightarrow> pyval \<Rightarrow> error + bool" where
  "py_lt (VDate a) (VDate b) = dt_lt a b"
| "py_lt _ _ = Inl TypeError"

fun py_str :: "pylib \<Rightarrow> pyval \<Rightarrow> string" where
  "py_str L VNone = ''None''"
| "py_str L (VStr s) = s"
| "py_str L (VDate d) = str_dt L d"

fun is_str :: "pyval \<Rightarrow> bool" where
  "is_str (VStr s) = True"
| "is_str _ = False"

fun is_datetime :: "pyval \<Rightarrow> bool" where
  "is_datetime (VDate d) = True"
| "is_datetime _ = False"

text \<open>The substring test \<open>a in b\<close> on strings.\<close>

fun starts_with :: "string \<Rightarrow> string \<Rightarrow> bool" where
  "starts_with [] s = True"
| "starts_with (c # cs) [] = False"
| "starts_with (c # cs) (d # ds) = (c = d \<and> starts_with cs ds)"

fun str_in :: "string \<Rightarrow> string \<Rightarrow> bool" where
  "str_in a [] = (a = [])"
| "str_in a (d # ds) = (starts_with a (d # ds) \<or> str_in a ds)"

fun opt_val :: "string option \<Rightarrow> pyval" where
  "opt_val None = VNone"
| "opt_val (Some s) = VStr s"

section \<open>Condition evaluator and rule matcher (process\_rules.py)\<close>

text \<open>
  Lines 35 to 47 of \<open>_evaluate_condition\<close>: the field selector picks the attribute. For
  \<open>Received\<close> the stored time is read as UTC and the comparison value is parsed, which
  may raise. An unknown selector gives \<open>None\<close> here, the early \<open>return False\<close>.
\<close>

definition resolve_field :: "pylib \<Rightarrow> email \<Rightarrow> condition \<Rightarrow> error + (pyval \<times> pyval) option" where
  "resolve_field L email c =
     (if field c = ''From'' then Inr (Some (VStr (sender email), VStr (val c)))
      else if field c = ''To'' then Inr (Some (opt_val (to_addr email), VStr (val c)))
      else if field c = ''Subject'' then Inr (Some (opt_val (subject email), VStr (val c)))
      else if field c = ''Message'' then Inr (Some (opt_val (body email), VStr (val c)))
      else if field c = ''Received'' then
        (case parse L (val c) of
           Inl e \<Rightarrow> Inl e
         | Inr d \<Rightarrow> Inr (Some (VDate (replace_tzinfo_utc (Naive (received email))), VDate d)))
      else Inr None)"

text \<open>Lines 49 to 67: the predicate chain, ending in \<open>return False\<close>.\<close>

definition apply_predicate :: "pylib \<Rightarrow> string \<Rightarrow> pyval \<Rightarrow> pyval \<Rightarrow> error + bool" where
  "apply_predicate L p field_value v =
     (if p = ''Contains'' then
        Inr (str_in (lower L (py_str L v)) (lower L (py_str L field_value)))
      else if p = ''Does not Contain'' then
        Inr (\<not> str_in (lower L (py_str L v)) (lower L (py_str L field_value)))
      else if p = ''Equals'' then
        (if is_str field_value \<and> is_str v
         then Inr (lower L (py_str L field_value) = lower L (py_str L v))
         else Inr (py_eq field_value v))
      else if p = ''Does not Equal'' then
        (if is_str field_value \<and> is_str v
         then Inr (lower L (py_str L field_value) \<noteq> lower L (py_str L v))
         else Inr (\<not> py_eq field_value v))
      else if p = ''Less Than'' \<and> is_datetime field_value then py_lt field_value v
      else if p = ''Greater Than'' \<and> is_datetime field_value then py_lt v field_value
      else Inr False)"

definition evaluate_condition :: "pylib \<Rightarrow> email \<Rightarrow> condition \<Rightarrow> error + bool" where
  "evaluate_condition L email c =
     (case resolve_field L email c of
        Inl e \<Rightarrow> Inl e
      | Inr None \<Rightarrow> Inr False
      | Inr (Some (field_value, v)) \<Rightarrow> apply_predicate L (predicate c) field_value v)"

text \<open>
  The list comprehension of \<open>_evaluate_rule_conditions\<close>: every condition is evaluated,
  in order, and the first exception ends the comprehension.
\<close>

fun results :: "pylib \<Rightarrow> email \<Rightarrow> condition list \<Rightarrow> error + bool list" where
  "results L email [] = Inr []"
| "results L email (c # cs) =
     (case evaluate_condition L email c of
        Inl e \<Rightarrow> Inl e
      | Inr b \<Rightarrow> (case results L email cs of Inl e \<Rightarrow> Inl e | Inr bs \<Rightarrow> Inr (b # bs)))"

definition evaluate_rule_conditions :: "pylib \<Rightarrow> email \<Rightarrow> rule_conditions \<Rightarrow> error + bool" where
  "evaluate_rule_conditions L email rc =
     (case results L email (rules rc) of
        Inl e \<Rightarrow> Inl e
      | Inr bs \<Rightarrow>
          Inr (if combinator rc = ''All'' then list_all (\<lambda>b. b) bs
               else if combinator rc = ''Any'' then list_ex (\<lambda>b. b) bs
               else False))"

section \<open>Mailbox service and message store\<close>

text \<open>
  The Gmail service as the engine sees it. A label has an id and a name. The service
  keeps the label set, the label ids attached to every message and the trashed
  messages; \<open>calls\<close> records every request sent to it, in order, failed ones included.
\<close>

record label =
  l_id :: string
  l_name :: string

datatype call =
    Modify string "string list" "string list"
  | Trash string
  | LabelsList
  | LabelsCreate string

record service =
  labels :: "label list"
  msg_labels :: "string \<Rightarrow> string set"
  trashed :: "string set"
  calls :: "call list"

text \<open>
  What the service decides by itself: \<open>outcome E n\<close> tells whether its request number
  \<open>n\<close> (counted from 0) fails, and with which exception; \<open>fresh_id E n\<close> is the id it
  gives to a label created by request number \<open>n\<close>. A failed request changes nothing
  at the service.
\<close>

record env =
  outcome :: "nat \<Rightarrow> error option"
  fresh_id :: "nat \<Rightarrow> string"

text \<open>\<open>users().messages().modify(userId, id, body).execute()\<close>\<close>

definition execute_modify ::
  "env \<Rightarrow> string \<Rightarrow> string list \<Rightarrow> string list \<Rightarrow> service \<Rightarrow> error option \<times> service" where
  "execute_modify E i addLabelIds removeLabelIds g =
     (let g' = g\<lparr>calls := calls g @ [Modify i addLabelIds removeLabelIds]\<rparr> in
      case outcome E (length (calls g)) of
        Some e \<Rightarrow> (Some e, g')
      | None \<Rightarrow>
          (None, g'\<lparr>msg_labels := (msg_labels g)
                      (i := (msg_labels g i \<union> set addLabelIds) - set removeLabelIds)\<rparr>))"

text \<open>\<open>users().messages().trash(userId, id).execute()\<close>\<close>

definition execute_trash :: "env \<Rightarrow> string \<Rightarrow> service \<Rightarrow> error option \<times> service" where
  "execute_trash E i g =
     (let g' = g\<lparr>calls := calls g @ [Trash i]\<rparr> in
      case outcome E (length (calls g)) of
        Some e \<Rightarrow> (Some e, g')
      | None \<Rightarrow> (None, g'\<lparr>trashed := insert i (trashed g)\<rparr>))"

text \<open>\<open>users().labels().list(userId).execute()['labels']\<close>\<close>

definition execute_labels_list :: "env \<Rightarrow> service \<Rightarrow> (error + label list) \<times> service" where
  "execute_labels_list E g =
     (let g' = g\<lparr>calls := calls g @ [LabelsList]\<rparr> in
      case outcome E (length (calls g)) of
        Some e \<Rightarrow> (Inl e, g')
      | None \<Rightarrow> (Inr (labels g), g'))"

text \<open>\<open>users().labels().create(userId, body={'name': label_name}).execute()\<close>\<close>

definition execute_labels_create :: "env \<Rightarrow> string \<Rightarrow> service \<Rightarrow> (error + label) \<times> service" where
  "execute_labels_create E label_name g =
     (let g' = g\<lparr>calls := calls g @ [LabelsCreate label_name]\<rparr> in
      case outcome E (length (calls g)) of
        Some e \<Rightarrow> (Inl e, g')
      | None \<Rightarrow>
          (let l = \<lparr>l_id = fresh_id E (length (calls g)), l_name = label_name\<rparr>
           in (Inr l, g'\<lparr>labels := labels g @ [l]\<rparr>)))"

text \<open>The lines the engine writes with \<open>logger\<close>, one constructor for each call site.\<close>

datatype log_event =
    ErrServiceNotInitialized
  | InfoMarkedRead string
  | InfoMarkedUnread string
  | InfoStarred string
  | InfoUnstarred string
  | InfoCreatedLabel string
  | InfoAppliedLabel string string
  | ErrApplyingLabel string string error
  | InfoTrashed string
  | InfoArchived string
  | ErrApplyingAction string string error
  | InfoProcessingLimit nat nat
  | InfoProcessingAll nat
  | InfoFound nat
  | InfoRuleMatched string string
  | InfoProgress nat
  | SuccessCompleted nat
  | ErrProcessing error

text \<open>
  The state of a \<open>RuleProcessor\<close>: the service handle (\<open>None\<close> when
  \<open>get_gmail_service\<close> gave none), the rows of the \<open>emails\<close> table behind the session,
  whether the session has been closed, and the log written so far.
\<close>

record state =
  gmail_service :: "service option"
  session :: "email list"
  session_closed :: bool
  logger :: "log_event list"

text \<open>\<open>session.query(Email).filter_by(id=email_id).first()\<close>\<close>

definition query_first :: "string \<Rightarrow> email list \<Rightarrow> email option" where
  "query_first i rows = find (\<lambda>e. email_id e = i) rows"

text \<open>\<open>email_obj.is_read = b; session.commit()\<close> for the row found by \<open>first()\<close>.\<close>

fun set_is_read :: "string \<Rightarrow> bool \<Rightarrow> email list \<Rightarrow> email list" where
  "set_is_read i b [] = []"
| "set_is_read i b (e # es) =
     (if email_id e = i then e\<lparr>is_read := b\<rparr> # es else e # set_is_read i b es)"

definition update_local :: "string \<Rightarrow> bool \<Rightarrow> email list \<Rightarrow> email list" where
  "update_local i b rows =
     (case query_first i rows of None \<Rightarrow> rows | Some email_obj \<Rightarrow> set_is_read i b rows)"

text \<open>
  \<open>session.query(Email).order_by(Email.received.desc())\<close>, with \<open>.limit(limit)\<close> when a
  limit is given, then \<open>.all()\<close>.
\<close>

definition query_emails :: "nat option \<Rightarrow> email list \<Rightarrow> email list" where
  "query_emails limit rows =
     (let ordered = sort_key (\<lambda>e. - received e) rows in
      case limit of None \<Rightarrow> ordered | Some n \<Rightarrow> take n ordered)"

section \<open>Action applicator (process\_rules.py)\<close>

text \<open>The last step of \<open>move_message\<close>: attach the label to the message.\<close>

definition attach_label :: "env \<Rightarrow> string \<Rightarrow> string \<Rightarrow> label \<Rightarrow> service \<Rightarrow> state \<Rightarrow> state" where
  "attach_label E i label_name l g s =
     (case execute_modify E i [l_id l] [] g of
        (Some e, g') \<Rightarrow>
          s\<lparr>gmail_service := Some g', logger := logger s @ [ErrApplyingLabel label_name i e]\<rparr>
      | (None, g') \<Rightarrow>
          s\<lparr>gmail_service := Some g', logger := logger s @ [InfoAppliedLabel label_name i]\<rparr>)"

text \<open>
  Lines 134 to 155: the inner \<open>try\<close> of \<open>move_message\<close>. The label list is fetched, the
  first label whose lowered name equals the lowered \<open>label_name\<close> is taken, a missing
  label is created, and the label is attached. Any exception is logged by the inner
  handler, so this block never raises.
\<close>

definition move_message ::
  "pylib \<Rightarrow> env \<Rightarrow> string \<Rightarrow> string \<Rightarrow> service \<Rightarrow> state \<Rightarrow> state" where
  "move_message L E i label_name g s =
     (case execute_labels_list E g of
        (Inl e, g1) \<Rightarrow>
          s\<lparr>gmail_service := Some g1, logger := logger s @ [ErrApplyingLabel label_name i e]\<rparr>
      | (Inr label_list, g1) \<Rightarrow>
          (case find (\<lambda>l. lower L (l_name l) = lower L label_name) label_list of
             Some l \<Rightarrow> attach_label E i label_name l g1 s
           | None \<Rightarrow>
               (case execute_labels_create E label_name g1 of
                  (Inl e, g2) \<Rightarrow>
                    s\<lparr>gmail_service := Some g2,
                      logger := logger s @ [ErrApplyingLabel label_name i e]\<rparr>
                | (Inr l, g2) \<Rightarrow>
                    attach_label E i label_name l g2
                      (s\<lparr>logger := logger s @ [InfoCreatedLabel label_name]\<rparr>))))"

text \<open>
  An action that is one \<open>modify\<close> or \<open>trash\<close> request followed by an optional update of
  the local row and one log line; an exception of the request leaves the block.
\<close>

definition after_request ::
  "error option \<times> service \<Rightarrow> (email list \<Rightarrow> email list) \<Rightarrow> log_event \<Rightarrow> state
     \<Rightarrow> error option \<times> state" where
  "after_request r upd ev s =
     (case r of
        (Some e, g') \<Rightarrow> (Some e, s\<lparr>gmail_service := Some g'\<rparr>)
      | (None, g') \<Rightarrow>
          (None, s\<lparr>gmail_service := Some g', session := upd (session s),
                   logger := logger s @ [ev]\<rparr>))"

text \<open>
  Lines 86 to 170: the body of the \<open>try\<close> of \<open>_apply_action\<close>. The first component is
  the exception that leaves the body, if any.
\<close>

definition apply_action_try ::
  "pylib \<Rightarrow> env \<Rightarrow> string \<Rightarrow> action \<Rightarrow> state \<Rightarrow> error option \<times> state" where
  "apply_action_try L E i a s =
     (case gmail_service s of
        None \<Rightarrow> (None, s\<lparr>logger := logger s @ [ErrServiceNotInitialized]\<rparr>)
      | Some g \<Rightarrow>
          if atype a = ''mark_as_read'' then
            after_request (execute_modify E i [] [''UNREAD''] g)
              (update_local i True) (InfoMarkedRead i) s
          else if atype a = ''mark_as_unread'' then
            after_request (execute_modify E i [''UNREAD''] [] g)
              (update_local i False) (InfoMarkedUnread i) s
          else if atype a = ''add_star'' then
            after_request (execute_modify E i [''STARRED''] [] g)
              (\<lambda>rows. rows) (InfoStarred i) s
          else if atype a = ''remove_star'' then
            after_request (execute_modify E i [] [''STARRED''] g)
              (\<lambda>rows. rows) (InfoUnstarred i) s
          else if atype a = ''move_message'' then
            (case params_label a of
               None \<Rightarrow> (Some KeyError, s)
             | Some label_name \<Rightarrow> (None, move_message L E i label_name g s))
          else if atype a = ''move_to_trash'' then
            after_request (execute_trash E i g) (\<lambda>rows. rows) (InfoTrashed i) s
          else if atype a = ''archive_message'' then
            after_request (execute_modify E i [] [''INBOX''] g)
              (\<lambda>rows. rows) (InfoArchived i) s
          else (None, s))"

text \<open>\<open>_apply_action\<close>: the body under its \<open>except Exception\<close> handler, which logs.\<close>

definition apply_action :: "pylib \<Rightarrow> env \<Rightarrow> string \<Rightarrow> action \<Rightarrow> state \<Rightarrow> state" where
  "apply_action L E i a s =
     (case apply_action_try L E i a s of
        (None, s') \<Rightarrow> s'
      | (Some e, s') \<Rightarrow> s'\<lparr>logger := logger s' @ [ErrApplyingAction (atype a) i e]\<rparr>)"

section \<open>Rule engine (process\_rules.py)\<close>

text \<open>\<open>for action in rule['actions']: self._apply_action(email.id, action)\<close>\<close>

fun apply_actions :: "pylib \<Rightarrow> env \<Rightarrow> string \<Rightarrow> action list \<Rightarrow> state \<Rightarrow> state" where
  "apply_actions L E i [] s = s"
| "apply_actions L E i (a # as) s = apply_actions L E i as (apply_action L E i a s)"

text \<open>
  \<open>for rule in self.rules\<close>, for one message. An exception of the rule matcher leaves
  the loop with the state reached so far.
\<close>

fun process_rules :: "pylib \<Rightarrow> env \<Rightarrow> email \<Rightarrow> rule list \<Rightarrow> state \<Rightarrow> error option \<times> state" where
  "process_rules L E email [] s = (None, s)"
| "process_rules L E email (r # rs) s =
     (case evaluate_rule_conditions L email (conditions r) of
        Inl e \<Rightarrow> (Some e, s)
      | Inr matched \<Rightarrow>
          process_rules L E email rs
            (if matched
             then apply_actions L E (email_id email) (actions r)
                    (s\<lparr>logger := logger s @ [InfoRuleMatched (rname r) (email_id email)]\<rparr>)
             else s))"

text \<open>
  \<open>for email in emails\<close>, with the counter \<open>processed_count\<close>. The result is the final
  count, or the exception that left the loop.
\<close>

fun process_loop ::
  "pylib \<Rightarrow> env \<Rightarrow> rule list \<Rightarrow> email list \<Rightarrow> nat \<Rightarrow> state \<Rightarrow> (error + nat) \<times> state" where
  "process_loop L E rs [] processed_count s = (Inr processed_count, s)"
| "process_loop L E rs (email # emails) processed_count s =
     (case process_rules L E email rs s of
        (Some e, s') \<Rightarrow> (Inl e, s')
      | (None, s') \<Rightarrow>
          process_loop L E rs emails (processed_count + 1)
            (if (processed_count + 1) mod 10 = 0
             then s'\<lparr>logger := logger s' @ [InfoProgress (processed_count + 1)]\<rparr>
             else s'))"

text \<open>
  \<open>process_emails\<close>: the query, the loop under \<open>except Exception\<close> (which logs and ends
  the pass), and \<open>finally: self.session.close()\<close>.
\<close>

definition process_emails :: "pylib \<Rightarrow> env \<Rightarrow> rule list \<Rightarrow> nat option \<Rightarrow> state \<Rightarrow> state" where
  "process_emails L E rs limit s =
     (let emails = query_emails limit (session s);
          s1 = s\<lparr>logger := logger s @
                 [case limit of
                    Some n \<Rightarrow> InfoProcessingLimit n (length rs)
                  | None \<Rightarrow> InfoProcessingAll (length rs),
                  InfoFound (length emails)]\<rparr>
      in case process_loop L E rs emails 0 s1 of
           (Inr n, s2) \<Rightarrow> s2\<lparr>logger := logger s2 @ [SuccessCompleted n], session_closed := True\<rparr>
         | (Inl e, s2) \<Rightarrow> s2\<lparr>logger := logger s2 @ [ErrProcessing e], session_closed := True\<rparr>)"

section \<open>Reading a pass\<close>



text \<open>
  The pass as the specification describes it: for each message in turn, for each rule
  in file order whose matcher returns true, every action of the rule in order. The
  result is the list of (message id, action) pairs to apply.
\<close>

definition matching_rules :: "pylib \<Rightarrow> email \<Rightarrow> rule list \<Rightarrow> rule list" where
  "matching_rules L email rs =
     filter (\<lambda>r. evaluate_rule_conditions L email (conditions r) = Inr True) rs"

definition spec_applications :: "pylib \<Rightarrow> rule list \<Rightarrow> email list \<Rightarrow> (string \<times> action) list" where
  "spec_applications L rs emails =
     concat (map (\<lambda>email.
       concat (map (\<lambda>r. map (\<lambda>a. (email_id email, a)) (actions r))
                 (matching_rules L email rs))) emails)"

text \<open>
  A list of applications carried out one after the other, each by \<open>_apply_action\<close>.
\<close>

definition apply_all :: "pylib \<Rightarrow> env \<Rightarrow> (string \<times> action) list \<Rightarrow> state \<Rightarrow> state" where
  "apply_all L E xs s = fold (\<lambda>(i, a). apply_action L E i a) xs s"

text \<open>
  Two engine states with the same mailbox service and the same stored rows; they may
  differ in their log and in whether the session is closed.
\<close>

definition same_stores :: "state \<Rightarrow> state \<Rightarrow> bool" where
  "same_stores s t \<longleftrightarrow> gmail_service s = gmail_service t \<and> session s = session t"




section \<open>Sample data\<close>

text \<open>
  The message of test\_rules.py, received 2023-01-01 12:00:00, and a library instance
  that reads two date texts, one with a zone designator and one without, and lowers the
  letters A to Z, which is what \<open>str.lower\<close> does on the ASCII texts used below.
\<close>

definition test_email :: email where
  "test_email =
     \<lparr>email_id = ''test123'', sender = ''test@example.com'', to_addr = None,
      subject = Some ''Test Subject'', body = Some ''Test message body'',
      received = 1672574400000000, is_read = False\<rparr>"

definition ascii_lower_char :: "char \<Rightarrow> char" where
  "ascii_lower_char c =
     (case map_of (zip ''ABCDEFGHIJKLMNOPQRSTUVWXYZ'' ''abcdefghijklmnopqrstuvwxyz'') c of
        None \<Rightarrow> c
      | Some d \<Rightarrow> d)"

definition ascii_lower :: "string \<Rightarrow> string" where
  "ascii_lower s = map ascii_lower_char s"

definition sample_lib :: pylib where
  "sample_lib =
     \<lparr>parse = (\<lambda>t. if t = ''2022-12-31T00:00:00Z'' then Inr (Aware 1672444800000000 0)
                    else if t = ''2023-06-01'' then Inr (Naive 1685577600000000)
                    else Inl ParserError),
      str_dt = (\<lambda>d. ''2023-01-01 12:00:00+00:00''),
      lower = ascii_lower\<rparr>"

text \<open>
  A service that never fails, a mailbox with one label, and an engine state holding the
  test message.
\<close>

definition reliable :: env where
  "reliable = \<lparr>outcome = (\<lambda>n. None), fresh_id = (\<lambda>n. ''Label_new'')\<rparr>"

definition sample_service :: service where
  "sample_service =
     \<lparr>labels = [\<lparr>l_id = ''Label_1'', l_name = ''Important''\<rparr>],
      msg_labels = (\<lambda>i. {''INBOX'', ''UNREAD''}), trashed = {}, calls = []\<rparr>"

definition sample_state :: state where
  "sample_state =
     \<lparr>gmail_service = Some sample_service, session = [test_email],
      session_closed = False, logger = []\<rparr>"

text \<open>An older message, three rules, and a store holding both messages.\<close>

definition older_email :: email where
  "older_email =
     \<lparr>email_id = ''old456'', sender = ''billing@acme.com'', to_addr = Some ''me@example.com'',
      subject = Some ''Invoice Due'', body = None,
      received = 1600000000000000, is_read = False\<rparr>"

definition star_all :: rule where
  "star_all =
     \<lparr>rname = ''star everything'',
      conditions = \<lparr>combinator = ''All'', rules = []\<rparr>,
      actions = [\<lparr>atype = ''add_star'', params_label = None\<rparr>]\<rparr>"

definition bad_date :: rule where
  "bad_date =
     \<lparr>rname = ''old mail'',
      conditions = \<lparr>combinator = ''Any'', rules =
        [\<lparr>field = ''Received'', predicate = ''Less Than'', val = ''last week''\<rparr>]\<rparr>,
      actions = [\<lparr>atype = ''archive_message'', params_label = None\<rparr>]\<rparr>"

definition mark_all :: rule where
  "mark_all =
     \<lparr>rname = ''mark everything'',
      conditions = \<lparr>combinator = ''All'', rules = []\<rparr>,
      actions = [\<lparr>atype = ''mark_as_read'', params_label = None\<rparr>]\<rparr>"

definition two_mails :: state where
  "two_mails =
     \<lparr>gmail_service = Some sample_service, session = [older_email, test_email],
      session_closed = False, logger = []\<rparr>"


section \<open>Properties of the condition evaluator\<close>

lemmas eval_defs = evaluate_condition_def resolve_field_def apply_predicate_def
  test_email_def sample_lib_def ascii_lower_def ascii_lower_char_def

text \<open>
  C8. A condition whose field selector is none of \<open>From\<close>, \<open>To\<close>, \<open>Subject\<close>,
  \<open>Message\<close>, \<open>Received\<close> evaluates to false, without an exception, whatever its
  predicate and comparison value are.
\<close>

theorem unknown_field_false:
  assumes "field c \<notin> {''From'', ''To'', ''Subject'', ''Message'', ''Received''}"
  shows "evaluate_condition L email c = Inr False"
  using assms by (simp add: evaluate_condition_def resolve_field_def)

theorem unknown_field_false_witness:
  "evaluate_condition sample_lib test_email
     \<lparr>field = ''Cc'', predicate = ''Does not Contain'', val = ''x''\<rparr> = Inr False"
  using unknown_field_false
    [of "\<lparr>field = ''Cc'', predicate = ''Does not Contain'', val = ''x''\<rparr>" sample_lib test_email]
  by simp

lemma resolve_field_predicate:
  "resolve_field L email (c\<lparr>predicate := p\<rparr>) = resolve_field L email c"
  by (simp add: resolve_field_def)

text \<open>
  C9. On each of the five message fields, \<open>Contains\<close> and \<open>Does not Contain\<close> are exact
  negations of each other: the condition with \<open>Contains\<close> returns a verdict \<open>b\<close> exactly
  when the same condition with \<open>Does not Contain\<close> returns \<open>\<not> b\<close>. In particular the two
  return normally on the same inputs.
\<close>

theorem contains_negation:
  assumes "field c \<in> {''From'', ''To'', ''Subject'', ''Message'', ''Received''}"
  shows "evaluate_condition L email (c\<lparr>predicate := ''Contains''\<rparr>) = Inr b
     \<longleftrightarrow> evaluate_condition L email (c\<lparr>predicate := ''Does not Contain''\<rparr>) = Inr (\<not> b)"
proof (cases "resolve_field L email c")
  case (Inl e)
  then show ?thesis
    by (simp add: evaluate_condition_def resolve_field_predicate)
next
  case (Inr r)
  show ?thesis
  proof (cases r)
    case None
    with Inr assms show ?thesis
      by (auto simp: resolve_field_def split: if_splits sum.splits)
  next
    case (Some fv)
    with Inr show ?thesis
      by (cases fv) (auto simp: evaluate_condition_def resolve_field_predicate apply_predicate_def)
  qed
qed

theorem contains_negation_witness:
  "evaluate_condition sample_lib test_email
     \<lparr>field = ''Subject'', predicate = ''Contains'', val = ''test''\<rparr> = Inr True
   \<and> evaluate_condition sample_lib test_email
     \<lparr>field = ''Subject'', predicate = ''Does not Contain'', val = ''test''\<rparr> = Inr False"
  using contains_negation
    [of "\<lparr>field = ''Subject'', predicate = ''Contains'', val = ''test''\<rparr>" sample_lib test_email True]
  by (simp add: eval_defs)

text \<open>
  C4 (as amended). For a condition with predicate \<open>Less Than\<close> or \<open>Greater Than\<close>: on the
  field \<open>Received\<close>, when the comparison value parses to an offset-aware time, the verdict
  is the strict comparison of the two instants, the stored time being read as UTC; when
  the value does not parse, the parser's exception leaves the evaluator; on every other
  field the verdict is false.
\<close>

theorem date_ordering:
  assumes "predicate c = ''Less Than'' \<or> predicate c = ''Greater Than''"
  shows "(field c = ''Received'' \<and> parse L (val c) = Inr (Aware w off) \<longrightarrow>
            evaluate_condition L email c =
              Inr (if predicate c = ''Less Than'' then received email < w - off
                   else w - off < received email))
       \<and> (field c = ''Received'' \<and> parse L (val c) = Inl e \<longrightarrow>
            evaluate_condition L email c = Inl e)
       \<and> (field c \<noteq> ''Received'' \<longrightarrow> evaluate_condition L email c = Inr False)"
proof -
  have "opt_val x \<noteq> VDate d" for x d
    by (cases x) auto
  then have nd: "\<not> is_datetime (opt_val x)" for x
    by (cases "opt_val x") auto
  show ?thesis
    using assms by (auto simp: evaluate_condition_def resolve_field_def apply_predicate_def nd)
qed

theorem date_ordering_witness:
  "evaluate_condition sample_lib test_email
     \<lparr>field = ''Received'', predicate = ''Greater Than'', val = ''2022-12-31T00:00:00Z''\<rparr>
     = Inr True
   \<and> evaluate_condition sample_lib test_email
     \<lparr>field = ''Received'', predicate = ''Less Than'', val = ''2022-12-31T00:00:00Z''\<rparr>
     = Inr False
   \<and> evaluate_condition sample_lib test_email
     \<lparr>field = ''Received'', predicate = ''Less Than'', val = ''soon''\<rparr> = Inl ParserError
   \<and> evaluate_condition sample_lib test_email
     \<lparr>field = ''Subject'', predicate = ''Less Than'', val = ''Test Subject''\<rparr> = Inr False"
  using
    date_ordering
      [of "\<lparr>field = ''Received'', predicate = ''Greater Than'', val = ''2022-12-31T00:00:00Z''\<rparr>"
        sample_lib 1672444800000000 0 test_email ParserError]
    date_ordering
      [of "\<lparr>field = ''Received'', predicate = ''Less Than'', val = ''2022-12-31T00:00:00Z''\<rparr>"
        sample_lib 1672444800000000 0 test_email ParserError]
    date_ordering
      [of "\<lparr>field = ''Received'', predicate = ''Less Than'', val = ''soon''\<rparr>"
        sample_lib 0 0 test_email ParserError]
    date_ordering
      [of "\<lparr>field = ''Subject'', predicate = ''Less Than'', val = ''Test Subject''\<rparr>"
        sample_lib 0 0 test_email ParserError]
  by (simp add: sample_lib_def test_email_def)

text \<open>
  The claim without the amendment fails: a \<open>Less Than\<close> condition on \<open>Received\<close> returns
  no comparison when its value does not parse, and none either when the value parses to
  a time without a zone, which cannot be ordered against the UTC reading of the field.
\<close>

theorem date_ordering_counterexample:
  "evaluate_condition sample_lib test_email
     \<lparr>field = ''Received'', predicate = ''Less Than'', val = ''yesterday or so''\<rparr>
     = Inl ParserError
   \<and> parse sample_lib ''2023-06-01'' = Inr (Naive 1685577600000000)
   \<and> evaluate_condition sample_lib test_email
     \<lparr>field = ''Received'', predicate = ''Less Than'', val = ''2023-06-01''\<rparr> = Inl TypeError"
  by (simp add: eval_defs)

section \<open>Properties of the rule matcher\<close>

lemma results_total:
  "(\<exists>bs. results L email cs = Inr bs)
     \<longleftrightarrow> (\<forall>c\<in>set cs. \<exists>b. evaluate_condition L email c = Inr b)"
proof (induction cs)
  case Nil
  then show ?case by simp
next
  case (Cons c cs)
  then show ?case by (auto split: sum.splits)
qed

lemma results_all:
  "results L email cs = Inr bs \<Longrightarrow>
     list_all (\<lambda>b. b) bs \<longleftrightarrow> (\<forall>c\<in>set cs. evaluate_condition L email c = Inr True)"
  by (induction cs arbitrary: bs) (auto split: sum.splits)

lemma results_ex:
  "results L email cs = Inr bs \<Longrightarrow>
     list_ex (\<lambda>b. b) bs \<longleftrightarrow> (\<exists>c\<in>set cs. evaluate_condition L email c = Inr True)"
  by (induction cs arbitrary: bs) (auto split: sum.splits)

text \<open>
  C3 (as amended). Under \<open>All\<close> the matcher returns true exactly when every child
  condition evaluates to true, so it returns true on an empty list. Under \<open>Any\<close> it
  returns true exactly when no child condition raises and at least one evaluates to
  true; on an empty list it returns false.
\<close>

theorem matcher_all_any:
  "(combinator rc = ''All'' \<longrightarrow>
      (evaluate_rule_conditions L email rc = Inr True
         \<longleftrightarrow> (\<forall>c\<in>set (rules rc). evaluate_condition L email c = Inr True)))
   \<and> (combinator rc = ''Any'' \<longrightarrow>
      (evaluate_rule_conditions L email rc = Inr True
         \<longleftrightarrow> (\<forall>c\<in>set (rules rc). \<exists>b. evaluate_condition L email c = Inr b)
             \<and> (\<exists>c\<in>set (rules rc). evaluate_condition L email c = Inr True)))
   \<and> (combinator rc = ''All'' \<and> rules rc = [] \<longrightarrow> evaluate_rule_conditions L email rc = Inr True)
   \<and> (combinator rc = ''Any'' \<and> rules rc = [] \<longrightarrow> evaluate_rule_conditions L email rc = Inr False)"
proof (cases "results L email (rules rc)")
  case (Inl e)
  then have "\<not> (\<forall>c\<in>set (rules rc). \<exists>b. evaluate_condition L email c = Inr b)"
    using results_total [of L email "rules rc"] by simp
  with Inl show ?thesis
    by (auto simp: evaluate_rule_conditions_def)
next
  case (Inr bs)
  then have "\<forall>c\<in>set (rules rc). \<exists>b. evaluate_condition L email c = Inr b"
    using results_total [of L email "rules rc"] by blast
  with Inr results_all [OF Inr] results_ex [OF Inr] show ?thesis
    by (auto simp: evaluate_rule_conditions_def)
qed

theorem matcher_all_any_witness:
  "evaluate_rule_conditions sample_lib test_email
     \<lparr>combinator = ''All'', rules =
        [\<lparr>field = ''Subject'', predicate = ''Contains'', val = ''Test''\<rparr>,
         \<lparr>field = ''From'', predicate = ''Contains'', val = ''example.com''\<rparr>]\<rparr> = Inr True
   \<and> evaluate_rule_conditions sample_lib test_email
     \<lparr>combinator = ''Any'', rules =
        [\<lparr>field = ''Subject'', predicate = ''Contains'', val = ''NonExistent''\<rparr>,
         \<lparr>field = ''From'', predicate = ''Contains'', val = ''example.com''\<rparr>]\<rparr> = Inr True
   \<and> evaluate_rule_conditions sample_lib test_email \<lparr>combinator = ''All'', rules = []\<rparr>
       = Inr True
   \<and> evaluate_rule_conditions sample_lib test_email \<lparr>combinator = ''Any'', rules = []\<rparr>
       = Inr False"
proof -
  have c1: "evaluate_condition sample_lib test_email
      \<lparr>field = ''Subject'', predicate = ''Contains'', val = ''Test''\<rparr> = Inr True"
    by (simp add: eval_defs)
  have c2: "evaluate_condition sample_lib test_email
      \<lparr>field = ''From'', predicate = ''Contains'', val = ''example.com''\<rparr> = Inr True"
    by (simp add: eval_defs)
  have c3: "evaluate_condition sample_lib test_email
      \<lparr>field = ''Subject'', predicate = ''Contains'', val = ''NonExistent''\<rparr> = Inr False"
    by (simp add: eval_defs)
  show ?thesis
    using c1 c2 c3
      matcher_all_any [of "\<lparr>combinator = ''All'', rules =
        [\<lparr>field = ''Subject'', predicate = ''Contains'', val = ''Test''\<rparr>,
         \<lparr>field = ''From'', predicate = ''Contains'', val = ''example.com''\<rparr>]\<rparr>"
        sample_lib test_email]
      matcher_all_any [of "\<lparr>combinator = ''Any'', rules =
        [\<lparr>field = ''Subject'', predicate = ''Contains'', val = ''NonExistent''\<rparr>,
         \<lparr>field = ''From'', predicate = ''Contains'', val = ''example.com''\<rparr>]\<rparr>"
        sample_lib test_email]
      matcher_all_any [of "\<lparr>combinator = ''All'', rules = []\<rparr>" sample_lib test_email]
      matcher_all_any [of "\<lparr>combinator = ''Any'', rules = []\<rparr>" sample_lib test_email]
    by auto
qed

text \<open>
  The claim without the amendment fails: under \<open>Any\<close>, a child that evaluates to true
  does not make the matcher return true when a sibling's date text does not parse.
\<close>

theorem any_with_unparsable_date_counterexample:
  "evaluate_condition sample_lib test_email
      \<lparr>field = ''Subject'', predicate = ''Contains'', val = ''Test''\<rparr> = Inr True
   \<and> evaluate_rule_conditions sample_lib test_email
     \<lparr>combinator = ''Any'', rules =
        [\<lparr>field = ''Subject'', predicate = ''Contains'', val = ''Test''\<rparr>,
         \<lparr>field = ''Received'', predicate = ''Less Than'', val = ''next tuesday-ish''\<rparr>]\<rparr>
     = Inl ParserError"
  by (simp add: evaluate_rule_conditions_def eval_defs)

section \<open>Properties of the action applicator\<close>

lemmas action_defs = apply_action_def apply_action_try_def after_request_def
  execute_modify_def execute_trash_def

text \<open>
  C10. An action whose type is none of the seven known ones is a no-op: the body of the
  applicator leaves without an exception, the service (its call record included) and
  every row of the store stay as they were, and with a service handle present the whole
  state is unchanged.
\<close>

theorem unknown_action_noop:
  assumes "atype a \<notin> {''mark_as_read'', ''mark_as_unread'', ''add_star'', ''remove_star'',
                       ''move_message'', ''move_to_trash'', ''archive_message''}"
  shows "fst (apply_action_try L E i a s) = None
       \<and> gmail_service (apply_action L E i a s) = gmail_service s
       \<and> session (apply_action L E i a s) = session s
       \<and> (gmail_service s \<noteq> None \<longrightarrow> apply_action L E i a s = s)"
  using assms by (cases "gmail_service s") (simp_all add: apply_action_def apply_action_try_def)

theorem unknown_action_noop_witness:
  "apply_action sample_lib reliable ''test123''
     \<lparr>atype = ''forward'', params_label = None\<rparr> sample_state = sample_state"
  using unknown_action_noop
    [of "\<lparr>atype = ''forward'', params_label = None\<rparr>" sample_lib reliable "''test123''"
        sample_state]
  by (simp add: sample_state_def)

lemma query_first_set_is_read:
  "query_first i (set_is_read i b rows) = map_option (\<lambda>e. e\<lparr>is_read := b\<rparr>) (query_first i rows)"
  by (induction rows) (auto simp: query_first_def)

lemma query_first_update_local:
  "query_first i (update_local i b rows) = map_option (\<lambda>e. e\<lparr>is_read := b\<rparr>) (query_first i rows)"
  by (auto simp: update_local_def query_first_set_is_read split: option.splits)

text \<open>
  C6. For a message id with a local row, with a service handle present: applying
  \<open>mark_as_read\<close> and then \<open>mark_as_unread\<close>, the second request being accepted by the
  service, leaves the \<open>UNREAD\<close> label on the message at the service and the local read
  flag false.
\<close>

theorem mark_read_then_unread:
  assumes "gmail_service s = Some g"
      and "query_first i (session s) = Some e"
      and "atype a1 = ''mark_as_read''" and "atype a2 = ''mark_as_unread''"
      and "outcome E (Suc (length (calls g))) = None"
  shows "\<exists>g' e'. gmail_service (apply_actions L E i [a1, a2] s) = Some g'
            \<and> ''UNREAD'' \<in> msg_labels g' i
            \<and> query_first i (session (apply_actions L E i [a1, a2] s)) = Some e'
            \<and> is_read e' = False"
proof -
  let ?s1 = "apply_action L E i a1 s"
  obtain g1 where g1: "gmail_service ?s1 = Some g1" "length (calls g1) = Suc (length (calls g))"
    using assms(1,3)
    by (cases "outcome E (length (calls g))") (auto simp: action_defs Let_def)
  obtain e1 where e1: "query_first i (session ?s1) = Some e1"
    using assms(1,2,3)
    by (cases "outcome E (length (calls g))")
       (auto simp: action_defs Let_def query_first_update_local)
  show ?thesis
    using g1 e1 assms(4,5)
    by (auto simp: action_defs Let_def query_first_update_local)
qed


theorem mark_read_then_unread_witness:
  "gmail_service sample_state = Some sample_service
   \<and> query_first ''test123'' (session sample_state) = Some test_email
   \<and> outcome reliable (Suc (length (calls sample_service))) = None
   \<and> (\<exists>g' e'. gmail_service (apply_actions sample_lib reliable ''test123''
          [\<lparr>atype = ''mark_as_read'', params_label = None\<rparr>,
           \<lparr>atype = ''mark_as_unread'', params_label = None\<rparr>] sample_state) = Some g'
        \<and> ''UNREAD'' \<in> msg_labels g' ''test123''
        \<and> query_first ''test123'' (session (apply_actions sample_lib reliable ''test123''
          [\<lparr>atype = ''mark_as_read'', params_label = None\<rparr>,
           \<lparr>atype = ''mark_as_unread'', params_label = None\<rparr>] sample_state)) = Some e'
        \<and> is_read e' = False)"
proof -
  have h1: "gmail_service sample_state = Some sample_service"
    by (simp add: sample_state_def)
  have h2: "query_first ''test123'' (session sample_state) = Some test_email"
    by (simp add: sample_state_def query_first_def test_email_def)
  have h3: "outcome reliable (Suc (length (calls sample_service))) = None"
    by (simp add: reliable_def)
  show ?thesis
    using h1 h2 h3
      mark_read_then_unread [OF h1 h2 _ _ h3,
        of "\<lparr>atype = ''mark_as_read'', params_label = None\<rparr>"
           "\<lparr>atype = ''mark_as_unread'', params_label = None\<rparr>"]
    by simp
qed

lemmas move_defs = move_message_def attach_label_def execute_labels_list_def
  execute_labels_create_def execute_modify_def

text \<open>
  C5. With a service handle present and the label list request answered: when no label
  of the service has the lowered name of the action's label (both lowered by
  \<open>str.lower\<close>) and the create request is accepted,
  \<open>move_message\<close> sends the list request, exactly one create request and then exactly
  one modify request, which attaches the id of the new label; when a label matches, it
  sends the list request and exactly one modify request attaching the id of the first
  matching label, and no create request.
\<close>

theorem move_to_label_calls:
  assumes "gmail_service s = Some g"
      and "atype a = ''move_message''" and "params_label a = Some label_name"
      and "outcome E (length (calls g)) = None"
  shows "((\<forall>l\<in>set (labels g). lower L (l_name l) \<noteq> lower L label_name)
            \<and> outcome E (Suc (length (calls g))) = None \<longrightarrow>
          (\<exists>g'. gmail_service (apply_action L E i a s) = Some g'
             \<and> calls g' = calls g @
                 [LabelsList, LabelsCreate label_name,
                  Modify i [fresh_id E (Suc (length (calls g)))] []]))
       \<and> (\<forall>l. find (\<lambda>l. lower L (l_name l) = lower L label_name) (labels g) = Some l \<longrightarrow>
          (\<exists>g'. gmail_service (apply_action L E i a s) = Some g'
             \<and> calls g' = calls g @ [LabelsList, Modify i [l_id l] []]))"
proof (intro conjI impI allI)
  assume a: "(\<forall>l\<in>set (labels g). lower L (l_name l) \<noteq> lower L label_name)
            \<and> outcome E (Suc (length (calls g))) = None"
  then have "find (\<lambda>l. lower L (l_name l) = lower L label_name) (labels g) = None"
    by (simp add: find_None_iff)
  with a assms show "\<exists>g'. gmail_service (apply_action L E i a s) = Some g'
             \<and> calls g' = calls g @
                 [LabelsList, LabelsCreate label_name,
                  Modify i [fresh_id E (Suc (length (calls g)))] []]"
    by (cases "outcome E (Suc (Suc (length (calls g))))")
       (simp_all add: apply_action_def apply_action_try_def move_defs Let_def)
next
  fix l
  assume "find (\<lambda>l. lower L (l_name l) = lower L label_name) (labels g) = Some l"
  with assms show "\<exists>g'. gmail_service (apply_action L E i a s) = Some g'
             \<and> calls g' = calls g @ [LabelsList, Modify i [l_id l] []]"
    by (cases "outcome E (Suc (length (calls g)))")
       (simp_all add: apply_action_def apply_action_try_def move_defs Let_def)
qed

theorem move_to_label_calls_witness:
  "(\<exists>g'. gmail_service (apply_action sample_lib reliable ''test123''
              \<lparr>atype = ''move_message'', params_label = Some ''Receipts''\<rparr> sample_state) = Some g'
        \<and> calls g' = [LabelsList, LabelsCreate ''Receipts'', Modify ''test123'' [''Label_new''] []])
   \<and> (\<exists>g'. gmail_service (apply_action sample_lib reliable ''test123''
              \<lparr>atype = ''move_message'', params_label = Some ''IMPORTANT''\<rparr> sample_state) = Some g'
        \<and> calls g' = [LabelsList, Modify ''test123'' [''Label_1''] []])"
proof -
  have h1: "gmail_service sample_state = Some sample_service"
    by (simp add: sample_state_def)
  have h4: "outcome reliable (length (calls sample_service)) = None"
    by (simp add: reliable_def)
  have n: "\<forall>l\<in>set (labels sample_service).
             lower sample_lib (l_name l) \<noteq> lower sample_lib ''Receipts''"
    by (simp add: sample_service_def sample_lib_def ascii_lower_def ascii_lower_char_def)
  have m: "find (\<lambda>l. lower sample_lib (l_name l) = lower sample_lib ''IMPORTANT'')
             (labels sample_service)
             = Some \<lparr>l_id = ''Label_1'', l_name = ''Important''\<rparr>"
    by (simp add: sample_service_def sample_lib_def ascii_lower_def ascii_lower_char_def)
  have o: "outcome reliable (Suc (length (calls sample_service))) = None"
    by (simp add: reliable_def)
  show ?thesis
    using n m o
      move_to_label_calls [OF h1 _ _ h4,
        of "\<lparr>atype = ''move_message'', params_label = Some ''Receipts''\<rparr>" "''Receipts''"
           sample_lib "''test123''"]
      move_to_label_calls [OF h1 _ _ h4,
        of "\<lparr>atype = ''move_message'', params_label = Some ''IMPORTANT''\<rparr>" "''IMPORTANT''"
           sample_lib "''test123''"]
    by (simp add: sample_service_def reliable_def)
qed


section \<open>Properties of the rule engine\<close>

lemma results_raises:
  "c \<in> set cs \<Longrightarrow> evaluate_condition L email c = Inl e \<Longrightarrow> \<exists>err. results L email cs = Inl err"
  using results_total [of L email cs] by (cases "results L email cs") auto

lemma matcher_raises:
  "c \<in> set (rules rc) \<Longrightarrow> evaluate_condition L email c = Inl e \<Longrightarrow>
     \<exists>err. evaluate_rule_conditions L email rc = Inl err"
  using results_raises [of c "rules rc" L email e]
  by (auto simp: evaluate_rule_conditions_def)

lemma process_rules_raises:
  "r \<in> set rs \<Longrightarrow> evaluate_rule_conditions L email (conditions r) = Inl e \<Longrightarrow>
     \<exists>err s'. process_rules L E email rs s = (Some err, s')"
proof (induction rs arbitrary: s)
  case Nil
  then show ?case by simp
next
  case (Cons r' rs)
  show ?case
  proof (cases "evaluate_rule_conditions L email (conditions r')")
    case (Inl e')
    then show ?thesis by simp
  next
    case (Inr b)
    with Cons.prems have "r \<in> set rs" by auto
    with Cons.IH Cons.prems(2) Inr show ?thesis by simp
  qed
qed

lemmas engine_defs = process_emails_def query_emails_def evaluate_rule_conditions_def
  apply_action_def apply_action_try_def after_request_def execute_modify_def

text \<open>The applications of a pass, message by message and rule by rule.\<close>

lemma spec_applications_Cons:
  "spec_applications L rs (email # emails)
     = spec_applications L rs [email] @ spec_applications L rs emails"
  by (simp add: spec_applications_def)

lemma spec_applications_simps:
  "spec_applications L rs [] = []"
  "spec_applications L [] [email] = []"
  "spec_applications L (r # rs) [email]
     = (if evaluate_rule_conditions L email (conditions r) = Inr True
        then map (\<lambda>a. (email_id email, a)) (actions r) else [])
       @ spec_applications L rs [email]"
  by (simp_all add: spec_applications_def matching_rules_def)

text \<open>
  The effect of the applicator on the service and on the stored rows does not depend on
  the log it appends to.
\<close>

lemma after_request_same:
  "same_stores s t \<Longrightarrow>
     fst (after_request r upd ev s) = fst (after_request r upd ev t)
     \<and> same_stores (snd (after_request r upd ev s)) (snd (after_request r upd ev t))"
  by (cases r; cases "fst r") (simp_all add: after_request_def same_stores_def)

lemma attach_label_same:
  "same_stores s t \<Longrightarrow>
     same_stores (attach_label E i label_name l g s) (attach_label E i label_name l g t)"
  by (cases "outcome E (length (calls g))")
     (simp_all add: attach_label_def execute_modify_def Let_def same_stores_def)

lemma move_message_same:
  assumes "same_stores s t"
  shows "same_stores (move_message L E i label_name g s) (move_message L E i label_name g t)"
proof (cases "outcome E (length (calls g))")
  case (Some e)
  then show ?thesis
    using assms by (simp add: move_message_def execute_labels_list_def Let_def same_stores_def)
next
  case None
  show ?thesis
  proof (cases "find (\<lambda>l. lower L (l_name l) = lower L label_name) (labels g)")
    case (Some l)
    with None attach_label_same [OF assms] show ?thesis
      by (simp add: move_message_def execute_labels_list_def Let_def)
  next
    case nf: None
    show ?thesis
    proof (cases "outcome E (Suc (length (calls g)))")
      case (Some e)
      with None nf assms show ?thesis
        by (simp add: move_message_def execute_labels_list_def execute_labels_create_def
              Let_def same_stores_def)
    next
      case ok: None
      have "same_stores (s\<lparr>logger := logger s @ [InfoCreatedLabel label_name]\<rparr>)
              (t\<lparr>logger := logger t @ [InfoCreatedLabel label_name]\<rparr>)"
        using assms by (simp add: same_stores_def)
      from attach_label_same [OF this] None nf ok show ?thesis
        by (simp add: move_message_def execute_labels_list_def execute_labels_create_def Let_def)
    qed
  qed
qed

lemma apply_action_try_same:
  assumes "same_stores s t"
  shows "fst (apply_action_try L E i a s) = fst (apply_action_try L E i a t)
     \<and> same_stores (snd (apply_action_try L E i a s)) (snd (apply_action_try L E i a t))"
proof (cases "gmail_service t")
  case None
  then show ?thesis
    using assms by (simp add: apply_action_try_def same_stores_def)
next
  case (Some g)
  then have g: "gmail_service s = Some g" "gmail_service t = Some g"
    using assms by (simp_all add: same_stores_def)
  show ?thesis
  proof (cases "atype a = ''move_message''")
    case True
    then show ?thesis
      using g assms move_message_same [OF assms]
      by (cases "params_label a") (simp_all add: apply_action_try_def)
  next
    case False
    then show ?thesis
      using g after_request_same [OF assms]
      by (simp add: apply_action_try_def assms)
  qed
qed

lemma apply_action_same:
  assumes "same_stores s t"
  shows "same_stores (apply_action L E i a s) (apply_action L E i a t)"
proof -
  obtain x s' where s': "apply_action_try L E i a s = (x, s')"
    by (cases "apply_action_try L E i a s") auto
  obtain y t' where t': "apply_action_try L E i a t = (y, t')"
    by (cases "apply_action_try L E i a t") auto
  have "x = y" "same_stores s' t'"
    using apply_action_try_same [OF assms, of L E i a] s' t' by simp_all
  then show ?thesis
    using s' t' by (cases y) (simp_all add: apply_action_def same_stores_def)
qed


lemma apply_all_simps:
  "apply_all L E [] s = s"
  "apply_all L E (xs @ ys) s = apply_all L E ys (apply_all L E xs s)"
  "apply_all L E ((i, a) # xs) s = apply_all L E xs (apply_action L E i a s)"
  by (simp_all add: apply_all_def)

lemma apply_actions_same:
  "same_stores s t \<Longrightarrow>
     same_stores (apply_actions L E i as s) (apply_all L E (map (\<lambda>a. (i, a)) as) t)"
proof (induction as arbitrary: s t)
  case Nil
  then show ?case by (simp add: apply_all_simps)
next
  case (Cons a as)
  from Cons.IH [OF apply_action_same [OF Cons.prems]] show ?case
    by (simp add: apply_all_simps)
qed

lemma process_rules_same:
  assumes "same_stores s t"
      and "\<forall>r\<in>set rs. \<exists>b. evaluate_rule_conditions L email (conditions r) = Inr b"
  shows "\<exists>s'. process_rules L E email rs s = (None, s')
      \<and> same_stores s' (apply_all L E (spec_applications L rs [email]) t)"
  using assms
proof (induction rs arbitrary: s t)
  case Nil
  then show ?case by (simp add: apply_all_simps spec_applications_simps)
next
  case (Cons r rs)
  obtain b where b: "evaluate_rule_conditions L email (conditions r) = Inr b"
    using Cons.prems(2) by auto
  let ?s0 = "s\<lparr>logger := logger s @ [InfoRuleMatched (rname r) (email_id email)]\<rparr>"
  let ?s1 = "if b then apply_actions L E (email_id email) (actions r) ?s0 else s"
  let ?xs = "if b then map (\<lambda>a. (email_id email, a)) (actions r) else []"
  have "same_stores ?s0 t"
    using Cons.prems(1) by (simp add: same_stores_def)
  then have a: "same_stores ?s1 (apply_all L E ?xs t)"
    using apply_actions_same [of ?s0 t L E "email_id email" "actions r"] Cons.prems(1)
    by (simp add: apply_all_simps)
  have "\<forall>r\<in>set rs. \<exists>b. evaluate_rule_conditions L email (conditions r) = Inr b"
    using Cons.prems(2) by simp
  then obtain s' where c: "process_rules L E email rs ?s1 = (None, s')"
      "same_stores s' (apply_all L E (spec_applications L rs [email]) (apply_all L E ?xs t))"
    using Cons.IH [OF a] by blast
  have "process_rules L E email (r # rs) s = (None, s')"
    using b c(1) by simp
  moreover have "apply_all L E (spec_applications L rs [email]) (apply_all L E ?xs t)
      = apply_all L E (spec_applications L (r # rs) [email]) t"
    using b by (simp add: apply_all_simps spec_applications_simps)
  ultimately show ?case using c(2) by simp
qed

lemma process_loop_same:
  assumes "same_stores s t"
      and "\<forall>email\<in>set emails. \<forall>r\<in>set rs.
             \<exists>b. evaluate_rule_conditions L email (conditions r) = Inr b"
  shows "\<exists>s'. process_loop L E rs emails n s = (Inr (n + length emails), s')
      \<and> same_stores s' (apply_all L E (spec_applications L rs emails) t)"
  using assms
proof (induction emails arbitrary: s t n)
  case Nil
  then show ?case by (simp add: apply_all_simps spec_applications_simps)
next
  case (Cons email emails)
  have "\<forall>r\<in>set rs. \<exists>b. evaluate_rule_conditions L email (conditions r) = Inr b"
    using Cons.prems(2) by simp
  then obtain s1 where a: "process_rules L E email rs s = (None, s1)"
      "same_stores s1 (apply_all L E (spec_applications L rs [email]) t)"
    using process_rules_same [OF Cons.prems(1)] by blast
  let ?s2 = "if (n + 1) mod 10 = 0
             then s1\<lparr>logger := logger s1 @ [InfoProgress (n + 1)]\<rparr> else s1"
  have p: "same_stores ?s2 (apply_all L E (spec_applications L rs [email]) t)"
    using a(2) by (simp add: same_stores_def)
  have "\<forall>email\<in>set emails. \<forall>r\<in>set rs.
          \<exists>b. evaluate_rule_conditions L email (conditions r) = Inr b"
    using Cons.prems(2) by simp
  then obtain s' where c:
      "process_loop L E rs emails (n + 1) ?s2 = (Inr (n + 1 + length emails), s')"
      "same_stores s' (apply_all L E (spec_applications L rs emails)
                         (apply_all L E (spec_applications L rs [email]) t))"
    using Cons.IH [OF p] by blast
  have "process_loop L E rs (email # emails) n s = (Inr (n + length (email # emails)), s')"
    using a(1) c(1) by simp
  moreover have "same_stores s' (apply_all L E (spec_applications L rs (email # emails)) t)"
    using c(2) by (simp add: apply_all_simps spec_applications_Cons [of L rs email emails])
  ultimately show ?case by blast
qed

text \<open>
  The first rule whose matcher raises on a message ends the rule loop in the state
  reached by the rules before it, and ends the message loop with it.
\<close>

lemma first_raising_rule:
  assumes "r \<in> set rs" and "evaluate_rule_conditions L email (conditions r) = Inl e"
  shows "\<exists>rs1 r' rs2 err. rs = rs1 @ r' # rs2
      \<and> (\<forall>x\<in>set rs1. \<exists>b. evaluate_rule_conditions L email (conditions x) = Inr b)
      \<and> evaluate_rule_conditions L email (conditions r') = Inl err"
proof -
  have "\<exists>x\<in>set rs. \<exists>err. evaluate_rule_conditions L email (conditions x) = Inl err"
    using assms by blast
  then obtain rs1 r' rs2 where s: "rs = rs1 @ r' # rs2"
      "\<exists>err. evaluate_rule_conditions L email (conditions r') = Inl err"
      "\<forall>x\<in>set rs1. \<not> (\<exists>err. evaluate_rule_conditions L email (conditions x) = Inl err)"
    using split_list_first_prop
      [of rs "\<lambda>x. \<exists>err. evaluate_rule_conditions L email (conditions x) = Inl err"]
    by blast
  have "\<forall>x\<in>set rs1. \<exists>b. evaluate_rule_conditions L email (conditions x) = Inr b"
  proof
    fix x assume "x \<in> set rs1"
    with s(3) show "\<exists>b. evaluate_rule_conditions L email (conditions x) = Inr b"
      by (cases "evaluate_rule_conditions L email (conditions x)") auto
  qed
  with s(1,2) show ?thesis by blast
qed

lemma process_rules_stops:
  assumes "\<forall>x\<in>set rs1. \<exists>b. evaluate_rule_conditions L email (conditions x) = Inr b"
      and "evaluate_rule_conditions L email (conditions r) = Inl err"
  shows "fst (process_rules L E email rs1 s) = None
       \<and> process_rules L E email (rs1 @ r # rs2) s
           = (Some err, snd (process_rules L E email rs1 s))"
  using assms(1)
proof (induction rs1 arbitrary: s)
  case Nil
  then show ?case using assms(2) by simp
next
  case (Cons x rs1)
  obtain b where b: "evaluate_rule_conditions L email (conditions x) = Inr b"
    using Cons.prems by auto
  have "\<forall>x\<in>set rs1. \<exists>b. evaluate_rule_conditions L email (conditions x) = Inr b"
    using Cons.prems by simp
  from Cons.IH [OF this] b show ?case by simp
qed

lemma process_loop_raise_same:
  assumes "same_stores s t"
      and "\<forall>email\<in>set ms1. \<forall>x\<in>set (rs1 @ r # rs2).
             \<exists>b. evaluate_rule_conditions L email (conditions x) = Inr b"
      and "\<forall>x\<in>set rs1. \<exists>b. evaluate_rule_conditions L m (conditions x) = Inr b"
      and "evaluate_rule_conditions L m (conditions r) = Inl err"
  shows "\<exists>s'. process_loop L E (rs1 @ r # rs2) (ms1 @ m # ms2) n s = (Inl err, s')
      \<and> same_stores s'
           (apply_all L E (spec_applications L (rs1 @ r # rs2) ms1 @ spec_applications L rs1 [m]) t)"
  using assms(1,2)
proof (induction ms1 arbitrary: s t n)
  case Nil
  obtain s' where a: "process_rules L E m rs1 s = (None, s')"
      "same_stores s' (apply_all L E (spec_applications L rs1 [m]) t)"
    using process_rules_same [OF Nil.prems(1) assms(3)] by blast
  have "process_rules L E m (rs1 @ r # rs2) s = (Some err, s')"
    using process_rules_stops [OF assms(3,4), of E s rs2] a(1) by simp
  then show ?case
    using a(2) by (simp add: spec_applications_simps)
next
  case (Cons email ms1)
  let ?rs = "rs1 @ r # rs2"
  have "\<forall>x\<in>set ?rs. \<exists>b. evaluate_rule_conditions L email (conditions x) = Inr b"
    using Cons.prems(2) by simp
  then obtain s1 where a: "process_rules L E email ?rs s = (None, s1)"
      "same_stores s1 (apply_all L E (spec_applications L ?rs [email]) t)"
    using process_rules_same [OF Cons.prems(1)] by blast
  let ?s2 = "if (n + 1) mod 10 = 0
             then s1\<lparr>logger := logger s1 @ [InfoProgress (n + 1)]\<rparr> else s1"
  have p: "same_stores ?s2 (apply_all L E (spec_applications L ?rs [email]) t)"
    using a(2) by (simp add: same_stores_def)
  have "\<forall>email\<in>set ms1. \<forall>x\<in>set ?rs.
          \<exists>b. evaluate_rule_conditions L email (conditions x) = Inr b"
    using Cons.prems(2) by simp
  then obtain s' where c:
      "process_loop L E ?rs (ms1 @ m # ms2) (n + 1) ?s2 = (Inl err, s')"
      "same_stores s' (apply_all L E (spec_applications L ?rs ms1 @ spec_applications L rs1 [m])
                         (apply_all L E (spec_applications L ?rs [email]) t))"
    using Cons.IH [OF p] by blast
  have "process_loop L E ?rs ((email # ms1) @ m # ms2) n s = (Inl err, s')"
    using a(1) c(1) by simp
  moreover have "same_stores s'
      (apply_all L E (spec_applications L ?rs (email # ms1) @ spec_applications L rs1 [m]) t)"
    using c(2) by (simp add: apply_all_simps spec_applications_Cons [of L ?rs email ms1])
  ultimately show ?case by blast
qed

lemma process_emails_raise:
  assumes "query_emails limit (session s) = ms1 @ m # ms2"
      and "\<forall>email\<in>set ms1. \<forall>x\<in>set (rs1 @ r # rs2).
             \<exists>b. evaluate_rule_conditions L email (conditions x) = Inr b"
      and "\<forall>x\<in>set rs1. \<exists>b. evaluate_rule_conditions L m (conditions x) = Inr b"
      and "evaluate_rule_conditions L m (conditions r) = Inl err"
  shows "gmail_service (process_emails L E (rs1 @ r # rs2) limit s)
           = gmail_service (apply_all L E
               (spec_applications L (rs1 @ r # rs2) ms1 @ spec_applications L rs1 [m]) s)
       \<and> session (process_emails L E (rs1 @ r # rs2) limit s)
           = session (apply_all L E
               (spec_applications L (rs1 @ r # rs2) ms1 @ spec_applications L rs1 [m]) s)
       \<and> last (logger (process_emails L E (rs1 @ r # rs2) limit s)) = ErrProcessing err
       \<and> session_closed (process_emails L E (rs1 @ r # rs2) limit s)"
proof -
  let ?rs = "rs1 @ r # rs2"
  let ?s1 = "s\<lparr>logger := logger s @
               [case limit of
                  Some n \<Rightarrow> InfoProcessingLimit n (length ?rs)
                | None \<Rightarrow> InfoProcessingAll (length ?rs),
                InfoFound (length (ms1 @ m # ms2))]\<rparr>"
  have "same_stores ?s1 s"
    by (simp add: same_stores_def)
  then obtain s2 where l: "process_loop L E ?rs (ms1 @ m # ms2) 0 ?s1 = (Inl err, s2)"
      "same_stores s2
         (apply_all L E (spec_applications L ?rs ms1 @ spec_applications L rs1 [m]) s)"
    using process_loop_raise_same [OF _ assms(2,3,4), of ?s1 s E ms2 0] by blast
  have "process_emails L E ?rs limit s
      = s2\<lparr>logger := logger s2 @ [ErrProcessing err], session_closed := True\<rparr>"
    using l(1) assms(1) by (simp add: process_emails_def Let_def)
  then show ?thesis
    using l(2) by (simp add: same_stores_def)
qed

lemma first_raise:
  assumes "\<not> (\<forall>email\<in>set ms. \<forall>x\<in>set rs.
             \<exists>b. evaluate_rule_conditions L email (conditions x) = Inr b)"
  shows "\<exists>ms1 m ms2 rs1 r rs2 err. ms = ms1 @ m # ms2 \<and> rs = rs1 @ r # rs2
      \<and> (\<forall>email\<in>set ms1. \<forall>x\<in>set rs.
            \<exists>b. evaluate_rule_conditions L email (conditions x) = Inr b)
      \<and> (\<forall>x\<in>set rs1. \<exists>b. evaluate_rule_conditions L m (conditions x) = Inr b)
      \<and> evaluate_rule_conditions L m (conditions r) = Inl err"
proof -
  let ?bad = "\<lambda>email. \<exists>x\<in>set rs. \<exists>err. evaluate_rule_conditions L email (conditions x) = Inl err"
  have "\<exists>email\<in>set ms. ?bad email"
  proof -
    obtain email x where e: "email \<in> set ms" "x \<in> set rs"
        "\<not> (\<exists>b. evaluate_rule_conditions L email (conditions x) = Inr b)"
      using assms by blast
    then have "\<exists>err. evaluate_rule_conditions L email (conditions x) = Inl err"
      by (cases "evaluate_rule_conditions L email (conditions x)") auto
    with e(1,2) show ?thesis by blast
  qed
  then obtain ms1 m ms2 where s: "ms = ms1 @ m # ms2" "?bad m" "\<forall>email\<in>set ms1. \<not> ?bad email"
    using split_list_first_prop [of ms ?bad] by blast
  have g: "\<forall>email\<in>set ms1. \<forall>x\<in>set rs.
            \<exists>b. evaluate_rule_conditions L email (conditions x) = Inr b"
  proof (intro ballI)
    fix email x assume "email \<in> set ms1" "x \<in> set rs"
    with s(3) have "\<not> (\<exists>err. evaluate_rule_conditions L email (conditions x) = Inl err)"
      by blast
    then show "\<exists>b. evaluate_rule_conditions L email (conditions x) = Inr b"
      by (cases "evaluate_rule_conditions L email (conditions x)") auto
  qed
  obtain x e where "x \<in> set rs" "evaluate_rule_conditions L m (conditions x) = Inl e"
    using s(2) by blast
  then obtain rs1 r rs2 err where "rs = rs1 @ r # rs2"
      "\<forall>x\<in>set rs1. \<exists>b. evaluate_rule_conditions L m (conditions x) = Inr b"
      "evaluate_rule_conditions L m (conditions r) = Inl err"
    using first_raising_rule [of x rs L m e] by blast
  with s(1) g show ?thesis by blast
qed


text \<open>
  C1 (as amended). A condition on \<open>Received\<close> whose value does not parse makes the
  evaluator raise the parser's exception, whatever the message. The matcher of a rule
  holding such a condition raises too, so with such a rule loaded the rule loop of the
  first candidate message ends with an exception and the message loop ends with it.
  \<open>process_emails\<close> catches the exception, logs it as the last line of the pass and
  closes the session. The rule list splits at the first rule whose matcher raises on the
  message, and both loops end in the state reached by the rules before that one: no
  later rule and no later message is processed. At the end of the pass the service and
  the stored rows are those left by applying, to the first message alone, the actions of
  the matching rules that stand before the raising rule.
\<close>

theorem unparsable_date_ends_pass:
  assumes "r \<in> set rs" and "c \<in> set (rules (conditions r))"
      and "field c = ''Received''" and "parse L (val c) = Inl perr"
  shows "evaluate_condition L email c = Inl perr
       \<and> (\<exists>err. evaluate_rule_conditions L email (conditions r) = Inl err)
       \<and> (\<exists>err s'. process_rules L E email rs s = (Some err, s')
             \<and> process_loop L E rs (email # emails) n s = (Inl err, s'))
       \<and> (query_emails limit (session s) \<noteq> [] \<longrightarrow>
             (\<exists>err. last (logger (process_emails L E rs limit s)) = ErrProcessing err)
             \<and> session_closed (process_emails L E rs limit s))
       \<and> (\<exists>rs1 r' rs2 err. rs = rs1 @ r' # rs2
             \<and> (\<forall>x\<in>set rs1. \<exists>b. evaluate_rule_conditions L email (conditions x) = Inr b)
             \<and> evaluate_rule_conditions L email (conditions r') = Inl err)
       \<and> (\<forall>rs1 r' rs2 err. rs = rs1 @ r' # rs2
             \<and> (\<forall>x\<in>set rs1. \<exists>b. evaluate_rule_conditions L email (conditions x) = Inr b)
             \<and> evaluate_rule_conditions L email (conditions r') = Inl err \<longrightarrow>
               fst (process_rules L E email rs1 s) = None
             \<and> process_rules L E email rs s = (Some err, snd (process_rules L E email rs1 s))
             \<and> process_loop L E rs (email # emails) n s
                 = (Inl err, snd (process_rules L E email rs1 s))
             \<and> same_stores (snd (process_rules L E email rs1 s))
                 (apply_all L E (spec_applications L rs1 [email]) s)
             \<and> (\<forall>ms. query_emails limit (session s) = email # ms \<longrightarrow>
                   gmail_service (process_emails L E rs limit s)
                     = gmail_service (apply_all L E (spec_applications L rs1 [email]) s)
                 \<and> session (process_emails L E rs limit s)
                     = session (apply_all L E (spec_applications L rs1 [email]) s)
                 \<and> last (logger (process_emails L E rs limit s)) = ErrProcessing err))"
proof -
  have c: "evaluate_condition L m c = Inl perr" for m
    using assms(3,4) by (simp add: evaluate_condition_def resolve_field_def)
  have m: "\<exists>err. evaluate_rule_conditions L m (conditions r) = Inl err" for m
    using matcher_raises [OF assms(2) c] .
  have p: "\<exists>err t'. process_rules L E m rs t = (Some err, t')
             \<and> process_loop L E rs (m # ms) k t = (Inl err, t')" for m ms k t
  proof -
    obtain err where "evaluate_rule_conditions L m (conditions r) = Inl err"
      using m by blast
    then obtain err' t' where "process_rules L E m rs t = (Some err', t')"
      using process_rules_raises [OF assms(1)] by blast
    then show ?thesis by simp
  qed
  have q: "(\<exists>err. last (logger (process_emails L E rs limit s)) = ErrProcessing err)
             \<and> session_closed (process_emails L E rs limit s)"
    if ne: "query_emails limit (session s) \<noteq> []"
  proof -
    obtain m ms where ms: "query_emails limit (session s) = m # ms"
      using ne by (cases "query_emails limit (session s)") simp_all
    let ?s1 = "s\<lparr>logger := logger s @
                 [case limit of
                    Some n \<Rightarrow> InfoProcessingLimit n (length rs)
                  | None \<Rightarrow> InfoProcessingAll (length rs),
                  InfoFound (length (m # ms))]\<rparr>"
    obtain err t' where "process_loop L E rs (m # ms) 0 ?s1 = (Inl err, t')"
      using p [of m ?s1 ms 0] by blast
    then show ?thesis
      using ms by (simp add: process_emails_def Let_def)
  qed
  have f: "\<exists>rs1 r' rs2 err. rs = rs1 @ r' # rs2
             \<and> (\<forall>x\<in>set rs1. \<exists>b. evaluate_rule_conditions L email (conditions x) = Inr b)
             \<and> evaluate_rule_conditions L email (conditions r') = Inl err"
  proof -
    obtain e where "evaluate_rule_conditions L email (conditions r) = Inl e"
      using m by blast
    then show ?thesis
      using first_raising_rule [OF assms(1)] by blast
  qed
  have u: "fst (process_rules L E email rs1 s) = None
         \<and> process_rules L E email rs s = (Some err, snd (process_rules L E email rs1 s))
         \<and> process_loop L E rs (email # emails) n s
             = (Inl err, snd (process_rules L E email rs1 s))
         \<and> same_stores (snd (process_rules L E email rs1 s))
             (apply_all L E (spec_applications L rs1 [email]) s)
         \<and> (\<forall>ms. query_emails limit (session s) = email # ms \<longrightarrow>
               gmail_service (process_emails L E rs limit s)
                 = gmail_service (apply_all L E (spec_applications L rs1 [email]) s)
             \<and> session (process_emails L E rs limit s)
                 = session (apply_all L E (spec_applications L rs1 [email]) s)
             \<and> last (logger (process_emails L E rs limit s)) = ErrProcessing err)"
    if split: "rs = rs1 @ r' # rs2"
      and ok: "\<forall>x\<in>set rs1. \<exists>b. evaluate_rule_conditions L email (conditions x) = Inr b"
      and bad: "evaluate_rule_conditions L email (conditions r') = Inl err"
    for rs1 r' rs2 err
  proof -
    have a: "fst (process_rules L E email rs1 s) = None"
        "process_rules L E email rs s = (Some err, snd (process_rules L E email rs1 s))"
      using process_rules_stops [OF ok bad, of E s rs2] split by simp_all
    have b: "process_loop L E rs (email # emails) n s
               = (Inl err, snd (process_rules L E email rs1 s))"
      using a(2) by simp
    have "same_stores s s"
      by (simp add: same_stores_def)
    then have d: "same_stores (snd (process_rules L E email rs1 s))
                    (apply_all L E (spec_applications L rs1 [email]) s)"
      using process_rules_same [OF _ ok, of s s E] by auto
    have e: "gmail_service (process_emails L E rs limit s)
                 = gmail_service (apply_all L E (spec_applications L rs1 [email]) s)
             \<and> session (process_emails L E rs limit s)
                 = session (apply_all L E (spec_applications L rs1 [email]) s)
             \<and> last (logger (process_emails L E rs limit s)) = ErrProcessing err"
      if ms: "query_emails limit (session s) = email # ms" for ms
    proof -
      have "query_emails limit (session s) = [] @ email # ms"
        using ms by simp
      from process_emails_raise [OF this _ ok bad, of rs2 E] split show ?thesis
        by (simp add: spec_applications_simps)
    qed
    from a b d e show ?thesis by blast
  qed
  from c m p q f u show ?thesis by blast
qed

theorem unparsable_date_ends_pass_witness:
  "evaluate_condition sample_lib test_email
     \<lparr>field = ''Received'', predicate = ''Less Than'', val = ''last week''\<rparr> = Inl ParserError
   \<and> process_rules sample_lib reliable test_email [star_all, bad_date, mark_all] sample_state
       = (Some ParserError,
          apply_action sample_lib reliable ''test123''
            \<lparr>atype = ''add_star'', params_label = None\<rparr>
            (sample_state\<lparr>logger := [InfoRuleMatched ''star everything'' ''test123'']\<rparr>))
   \<and> process_loop sample_lib reliable [star_all, bad_date, mark_all]
         [test_email, older_email] 0 sample_state
       = (Inl ParserError,
          apply_action sample_lib reliable ''test123''
            \<lparr>atype = ''add_star'', params_label = None\<rparr>
            (sample_state\<lparr>logger := [InfoRuleMatched ''star everything'' ''test123'']\<rparr>))
   \<and> map_option calls (gmail_service
        (process_emails sample_lib reliable [star_all, bad_date, mark_all] None two_mails))
       = Some [Modify ''test123'' [''STARRED''] []]"
proof -
  let ?c = "\<lparr>field = ''Received'', predicate = ''Less Than'', val = ''last week''\<rparr>"
  have h: "bad_date \<in> set [star_all, bad_date, mark_all]" "?c \<in> set (rules (conditions bad_date))"
      "field ?c = ''Received''" "parse sample_lib (val ?c) = Inl ParserError"
    by (simp_all add: bad_date_def sample_lib_def)
  have split: "[star_all, bad_date, mark_all] = [star_all] @ bad_date # [mark_all]"
    by simp
  have ok: "\<forall>x\<in>set [star_all].
              \<exists>b. evaluate_rule_conditions sample_lib test_email (conditions x) = Inr b"
    by (auto simp: star_all_def evaluate_rule_conditions_def)
  have bad: "evaluate_rule_conditions sample_lib test_email (conditions bad_date)
               = Inl ParserError"
    by (simp add: bad_date_def evaluate_rule_conditions_def eval_defs)
  have st: "snd (process_rules sample_lib reliable test_email [star_all] sample_state)
      = apply_action sample_lib reliable ''test123''
          \<lparr>atype = ''add_star'', params_label = None\<rparr>
          (sample_state\<lparr>logger := [InfoRuleMatched ''star everything'' ''test123'']\<rparr>)"
    by (simp add: star_all_def evaluate_rule_conditions_def test_email_def sample_state_def)
  have q: "query_emails None (session two_mails) = test_email # [older_email]"
    by (simp add: query_emails_def two_mails_def test_email_def older_email_def)
  have a: "map_option calls (gmail_service (apply_all sample_lib reliable
             (spec_applications sample_lib [star_all] [test_email]) two_mails))
       = Some [Modify ''test123'' [''STARRED''] []]"
    by (simp add: spec_applications_def matching_rules_def star_all_def
          evaluate_rule_conditions_def test_email_def apply_all_def action_defs two_mails_def
          sample_service_def reliable_def)
  note t1 = unparsable_date_ends_pass [OF h, of test_email reliable sample_state
      "[older_email]" 0 None]
  note t2 = unparsable_date_ends_pass [OF h, of test_email reliable two_mails "[]" 0 None]
  from t1 have e1: "evaluate_condition sample_lib test_email ?c = Inl ParserError"
    by blast
  from t1 split ok bad
  have e2: "process_rules sample_lib reliable test_email [star_all, bad_date, mark_all]
         sample_state
       = (Some ParserError,
          snd (process_rules sample_lib reliable test_email [star_all] sample_state))"
    and e3: "process_loop sample_lib reliable [star_all, bad_date, mark_all]
         [test_email, older_email] 0 sample_state
       = (Inl ParserError,
          snd (process_rules sample_lib reliable test_email [star_all] sample_state))"
    by blast+
  from t2 split ok bad q
  have e4: "gmail_service
          (process_emails sample_lib reliable [star_all, bad_date, mark_all] None two_mails)
        = gmail_service (apply_all sample_lib reliable
            (spec_applications sample_lib [star_all] [test_email]) two_mails)"
    by blast
  show ?thesis
    by (simp only: e1 e2 e3 e4 st a simp_thms)
qed

text \<open>
  The claim as stated fails: with a rule holding an unparsable date in front of a rule
  that matches every message, a pass over two stored messages sends no request at all
  and ends with the error line, although the second rule matches.
\<close>

theorem unparsable_date_counterexample:
  "evaluate_condition sample_lib test_email
     \<lparr>field = ''Received'', predicate = ''Less Than'', val = ''last week''\<rparr> = Inl ParserError
   \<and> evaluate_rule_conditions sample_lib older_email (conditions star_all) = Inr True
   \<and> map_option calls (gmail_service
        (process_emails sample_lib reliable [bad_date, star_all] None two_mails)) = Some []
   \<and> logger (process_emails sample_lib reliable [bad_date, star_all] None two_mails)
       = [InfoProcessingAll 2, InfoFound 2, ErrProcessing ParserError]"
  by (simp add: engine_defs eval_defs bad_date_def star_all_def two_mails_def older_email_def
        sample_service_def reliable_def)





















lemma query_emails_sorted:
  "sorted_wrt (\<lambda>a b. received b \<le> received a) (query_emails limit rows)"
proof -
  have "sorted (map (\<lambda>e. - received e) (sort_key (\<lambda>e. - received e) rows))"
    by (rule sorted_sort_key)
  then have "sorted_wrt (\<lambda>a b. received b \<le> received a) (sort_key (\<lambda>e. - received e) rows)"
    by (simp add: sorted_map)
  then show ?thesis
    by (cases limit) (simp_all add: query_emails_def)
qed

lemma query_emails_rows:
  "set (query_emails None rows) = set rows"
  "length (query_emails None rows) = length rows"
  "query_emails (Some k) rows = take k (query_emails None rows)"
  by (simp_all add: query_emails_def)

text \<open>
  C2 (as amended). The working set of a pass is in descending order of \<open>received\<close>;
  without a limit it holds the stored rows, all of them, and with a limit \<open>k\<close> its first
  \<open>k\<close>. When no rule matcher raises on a message of the working set, the pass leaves the
  mailbox service (with its list of requests, in the order sent) and the stored rows as
  they are after applying, one after the other, for each message of the working set in
  that order, for each rule in file order whose matcher returns true, every action of
  the rule in list order: every matching rule is applied, not only the first. The pass
  then ends with the completion line, counting every message of the working set. When a
  matcher raises, take the first message on which one does and the first rule that
  raises on it: the pass leaves the service and the stored rows as they are after the
  applications for the messages before that one, followed by those of the matching rules
  before that rule on that message, and it ends with the error line; nothing is applied
  for a later rule or for a later message. One of the two cases always holds.
\<close>

theorem pass_order:
  "sorted_wrt (\<lambda>a b. received b \<le> received a) (query_emails limit (session s))
   \<and> set (query_emails None (session s)) = set (session s)
   \<and> length (query_emails None (session s)) = length (session s)
   \<and> (\<forall>k. query_emails (Some k) (session s) = take k (query_emails None (session s)))
   \<and> ((\<forall>email\<in>set (query_emails limit (session s)). \<forall>r\<in>set rs.
          \<exists>b. evaluate_rule_conditions L email (conditions r) = Inr b) \<longrightarrow>
        gmail_service (process_emails L E rs limit s)
          = gmail_service
              (apply_all L E (spec_applications L rs (query_emails limit (session s))) s)
      \<and> session (process_emails L E rs limit s)
          = session (apply_all L E (spec_applications L rs (query_emails limit (session s))) s)
      \<and> last (logger (process_emails L E rs limit s))
          = SuccessCompleted (length (query_emails limit (session s))))
   \<and> (\<forall>ms1 m ms2 rs1 r rs2 err.
        query_emails limit (session s) = ms1 @ m # ms2 \<and> rs = rs1 @ r # rs2
        \<and> (\<forall>email\<in>set ms1. \<forall>x\<in>set rs.
              \<exists>b. evaluate_rule_conditions L email (conditions x) = Inr b)
        \<and> (\<forall>x\<in>set rs1. \<exists>b. evaluate_rule_conditions L m (conditions x) = Inr b)
        \<and> evaluate_rule_conditions L m (conditions r) = Inl err \<longrightarrow>
        gmail_service (process_emails L E rs limit s)
          = gmail_service (apply_all L E
              (spec_applications L rs ms1 @ spec_applications L rs1 [m]) s)
      \<and> session (process_emails L E rs limit s)
          = session (apply_all L E
              (spec_applications L rs ms1 @ spec_applications L rs1 [m]) s)
      \<and> last (logger (process_emails L E rs limit s)) = ErrProcessing err)
   \<and> ((\<forall>email\<in>set (query_emails limit (session s)). \<forall>r\<in>set rs.
          \<exists>b. evaluate_rule_conditions L email (conditions r) = Inr b)
      \<or> (\<exists>ms1 m ms2 rs1 r rs2 err.
            query_emails limit (session s) = ms1 @ m # ms2 \<and> rs = rs1 @ r # rs2
            \<and> (\<forall>email\<in>set ms1. \<forall>x\<in>set rs.
                  \<exists>b. evaluate_rule_conditions L email (conditions x) = Inr b)
            \<and> (\<forall>x\<in>set rs1. \<exists>b. evaluate_rule_conditions L m (conditions x) = Inr b)
            \<and> evaluate_rule_conditions L m (conditions r) = Inl err))"
proof -
  let ?emails = "query_emails limit (session s)"
  have a: "gmail_service (process_emails L E rs limit s)
          = gmail_service (apply_all L E (spec_applications L rs ?emails) s)
      \<and> session (process_emails L E rs limit s)
          = session (apply_all L E (spec_applications L rs ?emails) s)
      \<and> last (logger (process_emails L E rs limit s)) = SuccessCompleted (length ?emails)"
    if ok: "\<forall>email\<in>set ?emails. \<forall>r\<in>set rs.
              \<exists>b. evaluate_rule_conditions L email (conditions r) = Inr b"
  proof -
    let ?s1 = "s\<lparr>logger := logger s @
                 [case limit of
                    Some n \<Rightarrow> InfoProcessingLimit n (length rs)
                  | None \<Rightarrow> InfoProcessingAll (length rs),
                  InfoFound (length ?emails)]\<rparr>"
    have "same_stores ?s1 s"
      by (simp add: same_stores_def)
    then obtain s2 where l: "process_loop L E rs ?emails 0 ?s1 = (Inr (0 + length ?emails), s2)"
        "same_stores s2 (apply_all L E (spec_applications L rs ?emails) s)"
      using process_loop_same [OF _ ok, of ?s1 s E 0] by blast
    have "process_emails L E rs limit s
        = s2\<lparr>logger := logger s2 @ [SuccessCompleted (length ?emails)], session_closed := True\<rparr>"
      using l(1) by (simp add: process_emails_def Let_def)
    then show ?thesis
      using l(2) by (simp add: same_stores_def)
  qed
  have b: "gmail_service (process_emails L E rs limit s)
          = gmail_service (apply_all L E
              (spec_applications L rs ms1 @ spec_applications L rs1 [m]) s)
      \<and> session (process_emails L E rs limit s)
          = session (apply_all L E
              (spec_applications L rs ms1 @ spec_applications L rs1 [m]) s)
      \<and> last (logger (process_emails L E rs limit s)) = ErrProcessing err"
    if "?emails = ms1 @ m # ms2" and "rs = rs1 @ r # rs2"
      and "\<forall>email\<in>set ms1. \<forall>x\<in>set rs.
              \<exists>b. evaluate_rule_conditions L email (conditions x) = Inr b"
      and "\<forall>x\<in>set rs1. \<exists>b. evaluate_rule_conditions L m (conditions x) = Inr b"
      and "evaluate_rule_conditions L m (conditions r) = Inl err"
    for ms1 m ms2 rs1 r rs2 err
    using process_emails_raise [of limit s ms1 m ms2 rs1 r rs2 L err E] that by simp
  have c: "(\<forall>email\<in>set ?emails. \<forall>r\<in>set rs.
          \<exists>b. evaluate_rule_conditions L email (conditions r) = Inr b)
      \<or> (\<exists>ms1 m ms2 rs1 r rs2 err.
            ?emails = ms1 @ m # ms2 \<and> rs = rs1 @ r # rs2
            \<and> (\<forall>email\<in>set ms1. \<forall>x\<in>set rs.
                  \<exists>b. evaluate_rule_conditions L email (conditions x) = Inr b)
            \<and> (\<forall>x\<in>set rs1. \<exists>b. evaluate_rule_conditions L m (conditions x) = Inr b)
            \<and> evaluate_rule_conditions L m (conditions r) = Inl err)"
    using first_raise [of ?emails rs L] by blast
  have d: "sorted_wrt (\<lambda>a b. received b \<le> received a) ?emails"
      "set (query_emails None (session s)) = set (session s)"
      "length (query_emails None (session s)) = length (session s)"
      "\<forall>k. query_emails (Some k) (session s) = take k (query_emails None (session s))"
    using query_emails_sorted [of limit "session s"] query_emails_rows [where rows = "session s"]
    by simp_all
  show ?thesis
    apply (intro conjI)
          apply (rule d(1))
         apply (rule d(2))
        apply (rule d(3))
       apply (rule d(4))
      apply (intro impI, erule a)
     apply (intro allI impI, elim conjE, erule (4) b)
    apply (rule c)
    done
qed


text \<open>
  Two passes over two stored messages: one with two rules that match every message, one
  with a rule holding an unparsable date between them.
\<close>

theorem pass_order_witness:
  "query_emails None (session two_mails) = [test_email, older_email]
   \<and> map_option calls (gmail_service
        (process_emails sample_lib reliable [star_all, mark_all] None two_mails))
       = Some [Modify ''test123'' [''STARRED''] [], Modify ''test123'' [] [''UNREAD''],
               Modify ''old456'' [''STARRED''] [], Modify ''old456'' [] [''UNREAD'']]
   \<and> map_option calls (gmail_service
        (process_emails sample_lib reliable [mark_all, bad_date, star_all] None two_mails))
       = Some [Modify ''test123'' [] [''UNREAD'']]"
proof -
  have q: "query_emails None (session two_mails) = [test_email, older_email]"
    by (simp add: query_emails_def two_mails_def test_email_def older_email_def)
  have h: "\<forall>email\<in>set (query_emails None (session two_mails)). \<forall>r\<in>set [star_all, mark_all].
             \<exists>b. evaluate_rule_conditions sample_lib email (conditions r) = Inr b"
    by (auto simp: star_all_def mark_all_def evaluate_rule_conditions_def)
  have a: "map_option calls (gmail_service (apply_all sample_lib reliable
             (spec_applications sample_lib [star_all, mark_all] [test_email, older_email])
             two_mails))
       = Some [Modify ''test123'' [''STARRED''] [], Modify ''test123'' [] [''UNREAD''],
               Modify ''old456'' [''STARRED''] [], Modify ''old456'' [] [''UNREAD'']]"
    by (simp add: spec_applications_def matching_rules_def star_all_def mark_all_def
          evaluate_rule_conditions_def test_email_def older_email_def apply_all_def action_defs
          two_mails_def sample_service_def reliable_def)
  have split: "query_emails None (session two_mails) = [] @ test_email # [older_email]"
      "[mark_all, bad_date, star_all] = [mark_all] @ bad_date # [star_all]"
    using q by simp_all
  have ok: "\<forall>email\<in>set []. \<forall>x\<in>set [mark_all, bad_date, star_all].
              \<exists>b. evaluate_rule_conditions sample_lib email (conditions x) = Inr b"
      "\<forall>x\<in>set [mark_all].
              \<exists>b. evaluate_rule_conditions sample_lib test_email (conditions x) = Inr b"
    by (auto simp: mark_all_def evaluate_rule_conditions_def)
  have bad: "evaluate_rule_conditions sample_lib test_email (conditions bad_date)
               = Inl ParserError"
    by (simp add: bad_date_def evaluate_rule_conditions_def eval_defs)
  have b: "map_option calls (gmail_service (apply_all sample_lib reliable
             (spec_applications sample_lib [mark_all, bad_date, star_all] []
              @ spec_applications sample_lib [mark_all] [test_email]) two_mails))
       = Some [Modify ''test123'' [] [''UNREAD'']]"
    by (simp add: spec_applications_def matching_rules_def mark_all_def
          evaluate_rule_conditions_def test_email_def apply_all_def action_defs two_mails_def
          sample_service_def reliable_def)
  from pass_order [of None two_mails "[star_all, mark_all]" sample_lib reliable] h q
  have "gmail_service (process_emails sample_lib reliable [star_all, mark_all] None two_mails)
      = gmail_service (apply_all sample_lib reliable
          (spec_applications sample_lib [star_all, mark_all] [test_email, older_email])
          two_mails)"
    by simp
  moreover
  from pass_order [of None two_mails "[mark_all, bad_date, star_all]" sample_lib reliable]
    split ok bad
  have "gmail_service
          (process_emails sample_lib reliable [mark_all, bad_date, star_all] None two_mails)
      = gmail_service (apply_all sample_lib reliable
          (spec_applications sample_lib [mark_all, bad_date, star_all] []
           @ spec_applications sample_lib [mark_all] [test_email]) two_mails)"
    by blast
  ultimately show ?thesis
    using q a b by simp
qed

text \<open>
  The claim as stated fails: with a rule holding an unparsable date between two rules
  that match every message, the pass stars the newest message and ends there. The third
  rule is not applied to that message, and the older message, a candidate that both
  rules match, has no rule evaluated on it and no action applied to it.
\<close>

theorem pass_order_counterexample:
  "query_emails None (session two_mails) = [test_email, older_email]
   \<and> matching_rules sample_lib test_email [star_all, bad_date, mark_all] = [star_all, mark_all]
   \<and> matching_rules sample_lib older_email [star_all, bad_date, mark_all] = [star_all, mark_all]
   \<and> map_option calls (gmail_service
        (process_emails sample_lib reliable [star_all, bad_date, mark_all] None two_mails))
       = Some [Modify ''test123'' [''STARRED''] []]
   \<and> logger (process_emails sample_lib reliable [star_all, bad_date, mark_all] None two_mails)
       = [InfoProcessingAll 3, InfoFound 2, InfoRuleMatched ''star everything'' ''test123'',
          InfoStarred ''test123'', ErrProcessing ParserError]"
  by (simp add: engine_defs eval_defs matching_rules_def bad_date_def star_all_def mark_all_def
        two_mails_def older_email_def sample_service_def reliable_def)

end
